theory Spec2Isabelle
  imports Main "HOL-Library.Word" "HOL-Library.Sublist"
begin

unbundle bit_operations_syntax

section \<open>The I/O reactor (\<open>io_engine\<close>)\<close>

subsection \<open>Data model\<close>

text \<open>
  \<open>short\<close> is a 16-bit integer. The event tests of \<open>do_pull\<close> have the form
  \<open>a & b\<close> used as a condition; integer promotion sign-extends both operands alike,
  so the promoted conjunction is non-zero exactly when the 16-bit one is.
  A \<open>steady_clock::time_point\<close> is its tick count; only comparisons are made on it
  by the reactor. A \<open>std::coroutine_handle<>\<close> is \<open>None\<close> when null and
  \<open>Some h\<close> for the coroutine numbered \<open>h\<close>.
\<close>

type_synonym short = "16 word"
type_synonym time_point = int
type_synonym coroutine_handle = "nat option"

text \<open>The event bits of \<open><poll.h>\<close> (Linux values).\<close>

definition POLLIN :: short where "POLLIN = 0x001"
definition POLLPRI :: short where "POLLPRI = 0x002"
definition POLLOUT :: short where "POLLOUT = 0x004"
definition POLLERR :: short where "POLLERR = 0x008"
definition POLLHUP :: short where "POLLHUP = 0x010"
definition POLLNVAL :: short where "POLLNVAL = 0x020"

definition EINTR :: int where "EINTR = 4"

text \<open>
  The exceptions the library creates: \<open>std::runtime_error(msg)\<close>,
  \<open>std::system_error(errno, system_category(), msg)\<close> (\<open>utils::make_sys_error\<close>),
  and the three \<open>io_engine::poll_error\<close> subclasses, each carrying the descriptor.
\<close>

datatype exn =
    Runtime_error string
  | System_error int string
  | Pollerr_error int
  | Pollhup_error int
  | Pollnval_error int

text \<open>
  What reaches the caller of an operation that does not return normally: a C++ exception,
  a failed \<open>assert\<close>, or undefined behaviour (resuming a finished coroutine).
\<close>

datatype fault = Raised exn | Assertion_failed | Undefined_behaviour

definition make_sys_error :: "int \<Rightarrow> string \<Rightarrow> exn" where
  "make_sys_error errno msg = System_error errno msg"

text \<open>\<open>io_engine::operation\<close>, field by field.\<close>

record operation =
  handle :: coroutine_handle
  fd :: int
  events :: short
  timeout :: time_point
  revents :: short
  exception :: "exn option"

text \<open>\<open>struct pollfd\<close>.\<close>

record pollfd =
  pfd_fd :: int
  pfd_events :: short
  pfd_revents :: short

text \<open>
  What a call of \<open>poll_fn\<close> leaves behind: its return value, \<open>errno\<close>, and the
  contents of the span it was given.
\<close>

record poll_result =
  ret :: int
  errno :: int
  fds :: "pollfd list"

type_synonym poll_fn = "pollfd list \<Rightarrow> poll_result option"

text \<open>
  The reactor holds \<open>std::vector<operation *> operations\<close>. Every pointer is
  represented by the operation it points to: the pointees are the \<open>op\<close> members of
  distinct awaiter objects, each registered by its own \<open>await_suspend\<close>.
  \<open>trace\<close> is a ghost field: it records every \<open>op->handle.resume()\<close> the reactor
  performs, in order, as the operation resumed and the registry at that moment.
  \<open>world\<close> is everything else the resumed coroutines can read and write.
\<close>

record 'w system =
  operations :: "operation list"
  trace :: "(operation \<times> operation list) list"
  world :: 'w

text \<open>
  \<open>op->handle.resume()\<close> runs user code until it suspends again or finishes. That code
  reads the operation through its awaiter and may re-enter the reactor, so it is a
  function of the operation, the registry and the world. Only continuations that
  return control are modelled.
\<close>

type_synonym 'w resume_fn = "operation \<Rightarrow> operation list \<times> 'w \<Rightarrow> operation list \<times> 'w"

definition resume :: "'w resume_fn \<Rightarrow> operation \<Rightarrow> 'w system \<Rightarrow> 'w system" where
  "resume k op s =
     (case k op (operations s, world s) of
        (ops', w') \<Rightarrow>
          \<lparr>operations = ops', trace = trace s @ [(op, operations s)], world = w'\<rparr>)"

fun resume_all :: "'w resume_fn \<Rightarrow> operation list \<Rightarrow> 'w system \<Rightarrow> 'w system" where
  "resume_all k [] s = s"
| "resume_all k (op # ops) s = resume_all k ops (resume k op s)"

text \<open>A continuation that never touches the reactor.\<close>

definition detached :: "(operation \<Rightarrow> 'w \<Rightarrow> 'w) \<Rightarrow> 'w resume_fn" where
  "detached g op = (\<lambda>(ops, w). (ops, g op w))"

text \<open>
  A continuation that re-enters the reactor only to register: whatever it does, it leaves
  the registry as it found it, with new operations at the end.
\<close>

definition only_registers :: "'w resume_fn \<Rightarrow> bool" where
  "only_registers k \<longleftrightarrow> (\<forall>op reg w. \<exists>new. fst (k op (reg, w)) = reg @ new)"

subsection \<open>\<open>io_engine::add_operation\<close>\<close>

definition add_operation :: "operation \<Rightarrow> 'w system \<Rightarrow> fault + 'w system" where
  "add_operation op s =
     (if handle op = None then Inl Assertion_failed
      else Inr (s\<lparr>operations := operations s @ [op]\<rparr>))"

subsection \<open>\<open>io_engine::do_pull\<close>\<close>

definition make_fds :: "operation list \<Rightarrow> pollfd list" where
  "make_fds ops =
     map (\<lambda>op. \<lparr>pfd_fd = fd op, pfd_events = events op, pfd_revents = 0\<rparr>) ops"

text \<open>
  \<open>operations[i]->revents = fds[i].revents\<close> for every index of the span. A span has a
  fixed extent, so the second list is as long as the first; the last equation is never
  reached.
\<close>

fun store_revents :: "operation list \<Rightarrow> pollfd list \<Rightarrow> operation list" where
  "store_revents [] ps = []"
| "store_revents (op # ops) (p # ps) = op\<lparr>revents := pfd_revents p\<rparr> # store_revents ops ps"
| "store_revents (op # ops) [] = op # ops"

text \<open>The two \<open>to_remove_pred\<close> lambdas.\<close>

definition to_remove_failed :: "time_point \<Rightarrow> operation \<Rightarrow> bool" where
  "to_remove_failed now op \<longleftrightarrow> fd op \<noteq> - 1 \<or> now \<ge> timeout op"

definition to_remove_pred :: "time_point \<Rightarrow> operation \<Rightarrow> bool" where
  "to_remove_pred now op \<longleftrightarrow>
     (fd op \<noteq> - 1 \<and> revents op AND (POLLERR OR POLLHUP OR POLLNVAL OR events op) \<noteq> 0)
     \<or> now \<ge> timeout op"

text \<open>The bodies of the two loops that store the failure.\<close>

definition set_sys_error :: "exn \<Rightarrow> operation \<Rightarrow> operation" where
  "set_sys_error eptr op = (if fd op \<noteq> - 1 then op\<lparr>exception := Some eptr\<rparr> else op)"

definition set_poll_error :: "operation \<Rightarrow> operation" where
  "set_poll_error op =
     (if fd op \<noteq> - 1 then
        (if revents op AND POLLERR \<noteq> 0 then op\<lparr>exception := Some (Pollerr_error (fd op))\<rparr>
         else if revents op AND POLLHUP \<noteq> 0 then op\<lparr>exception := Some (Pollhup_error (fd op))\<rparr>
         else if revents op AND POLLNVAL \<noteq> 0 then op\<lparr>exception := Some (Pollnval_error (fd op))\<rparr>
         else op)
      else op)"

text \<open>
  The part of \<open>do_pull\<close> before the final loop: given what \<open>poll_fn\<close> left and the
  clock, the new registry and \<open>to_resume\<close>. \<open>make_sys_error\<close> reads \<open>errno\<close> as
  the call left it.
\<close>

definition scan :: "poll_result \<Rightarrow> time_point \<Rightarrow> operation list \<Rightarrow> operation list \<times> operation list" where
  "scan r now ops0 =
     (let ops = store_revents ops0 (fds r) in
      if ret r = - 1 then
        (filter (\<lambda>op. \<not> to_remove_failed now op) ops,
         map (set_sys_error (make_sys_error (errno r) ''poll''))
           (filter (to_remove_failed now) ops))
      else
        (filter (\<lambda>op. \<not> to_remove_pred now op) ops,
         map set_poll_error (filter (to_remove_pred now) ops)))"

definition do_pull :: "'w resume_fn \<Rightarrow> poll_fn \<Rightarrow> time_point \<Rightarrow> 'w system \<Rightarrow> 'w system option" where
  "do_pull k poll_fn now s =
     (case poll_fn (make_fds (operations s)) of
        None \<Rightarrow> None
      | Some r \<Rightarrow>
          (case scan r now (operations s) of
             (remaining, to_resume) \<Rightarrow>
               Some (resume_all k to_resume (s\<lparr>operations := remaining\<rparr>))))"

subsection \<open>\<open>io_engine::pull\<close>\<close>

text \<open>
  The operating system is a parameter: \<open>sys n fds\<close> is what the \<open>n\<close>-th call
  \<open>::poll(fds.data(), fds.size(), 0)\<close> returns and leaves behind. The lambda of
  \<open>pull\<close> repeats the call while it is interrupted by a signal; if every call is
  interrupted it never returns, which is the value \<open>None\<close>.
\<close>

type_synonym syscall = "nat \<Rightarrow> pollfd list \<Rightarrow> poll_result"

partial_function (option) pull_poll_fn :: "syscall \<Rightarrow> nat \<Rightarrow> pollfd list \<Rightarrow> poll_result option" where
  "pull_poll_fn sys n fds0 =
     (let r = sys n fds0 in
      if ret r = - 1 \<and> errno r = EINTR then pull_poll_fn sys (Suc n) (fds r)
      else Some r)"

declare pull_poll_fn.simps [code]

definition pull :: "'w resume_fn \<Rightarrow> syscall \<Rightarrow> time_point \<Rightarrow> 'w system \<Rightarrow> 'w system option" where
  "pull k sys now s = do_pull k (pull_poll_fn sys 0) now s"

text \<open>
  \<open>pull_all\<close> runs passes of \<open>do_pull\<close> until the registry is empty, each with a
  \<open>poll_fn\<close> that blocks up to the earliest deadline. Its passes are passes of
  \<open>do_pull\<close>, for which everything below is stated with \<open>poll_fn\<close> arbitrary.
\<close>

subsection \<open>\<open>io_engine::~io_engine\<close>\<close>

definition destroyed :: exn where
  "destroyed = Runtime_error ''io_engine destroyed''"

text \<open>
  The loop runs until the registry is empty; a continuation may register again while it
  runs, so the loop need not end.
\<close>

partial_function (option) destroy :: "'w resume_fn \<Rightarrow> 'w system \<Rightarrow> 'w system option" where
  "destroy k s =
     (if operations s = [] then Some s
      else
        let op = last (operations s);
            s1 = s\<lparr>operations := butlast (operations s)\<rparr>
        in destroy k (resume k (op\<lparr>exception := Some destroyed\<rparr>) s1))"

declare destroy.simps [code]

subsection \<open>The awaiters of the reactor\<close>

text \<open>
  \<open>co_await a\<close> evaluates \<open>a.await_ready()\<close>; if it holds the coroutine goes on with
  \<open>a.await_resume()\<close> at once, otherwise \<open>a.await_suspend(h)\<close> runs and the coroutine
  stays suspended until something resumes \<open>h\<close>.
\<close>

datatype 'a await_result = Resumed "exn + 'a" | Suspended

definition co_await ::
  "('aw \<Rightarrow> bool) \<Rightarrow> (nat \<Rightarrow> 'aw \<Rightarrow> 's \<Rightarrow> fault + 's) \<Rightarrow> ('aw \<Rightarrow> exn + 'a) \<Rightarrow>
   nat \<Rightarrow> 'aw \<Rightarrow> 's \<Rightarrow> fault + ('s \<times> 'a await_result)" where
  "co_await ready suspend result h aw s =
     (if ready aw then Inr (s, Resumed (result aw))
      else (case suspend h aw s of
              Inl f \<Rightarrow> Inl f
            | Inr s' \<Rightarrow> Inr (s', Suspended)))"

definition time_point_max :: time_point where
  "time_point_max = 2 ^ 63 - 1"

text \<open>The operation each factory function puts into its awaiter.\<close>

definition wait_until :: "time_point \<Rightarrow> operation" where
  "wait_until t =
     \<lparr>handle = None, fd = - 1, events = 0, timeout = t, revents = 0, exception = None\<rparr>"

definition poll_until :: "int \<Rightarrow> short \<Rightarrow> time_point \<Rightarrow> operation" where
  "poll_until raw ev t =
     \<lparr>handle = None, fd = raw, events = ev, timeout = t, revents = 0, exception = None\<rparr>"

definition poll :: "int \<Rightarrow> short \<Rightarrow> operation" where
  "poll raw ev = poll_until raw ev time_point_max"

definition poll_once :: "int \<Rightarrow> operation" where
  "poll_once raw =
     \<lparr>handle = None, fd = raw, events = 0, timeout = 0, revents = 0, exception = None\<rparr>"

text \<open>
  \<open>wait_for\<close> and \<open>poll_for\<close> add the duration (in clock ticks) to the clock read at
  the call. The tick count is a signed 64-bit integer, whose overflow is undefined.
\<close>

definition time_plus :: "time_point \<Rightarrow> int \<Rightarrow> fault + time_point" where
  "time_plus t d =
     (if - (2 ^ 63) \<le> t + d \<and> t + d < 2 ^ 63 then Inr (t + d) else Inl Undefined_behaviour)"

definition wait_for :: "time_point \<Rightarrow> int \<Rightarrow> fault + operation" where
  "wait_for now0 d = (case time_plus now0 d of Inl f \<Rightarrow> Inl f | Inr t \<Rightarrow> Inr (wait_until t))"

definition poll_for :: "time_point \<Rightarrow> int \<Rightarrow> short \<Rightarrow> int \<Rightarrow> fault + operation" where
  "poll_for now0 raw ev d =
     (case time_plus now0 d of Inl f \<Rightarrow> Inl f | Inr t \<Rightarrow> Inr (poll_until raw ev t))"

text \<open>The members of the awaiters; \<open>now\<close> is the clock read by \<open>await_ready\<close>.\<close>

definition await_ready :: "time_point \<Rightarrow> operation \<Rightarrow> bool" where
  "await_ready now op \<longleftrightarrow> now \<ge> timeout op"

definition poll_once_await_ready :: "operation \<Rightarrow> bool" where
  "poll_once_await_ready op \<longleftrightarrow> False"

definition await_suspend :: "nat \<Rightarrow> operation \<Rightarrow> 'w system \<Rightarrow> fault + 'w system" where
  "await_suspend h op s = add_operation (op\<lparr>handle := Some h\<rparr>) s"

definition wait_until_await_resume :: "operation \<Rightarrow> exn + unit" where
  "wait_until_await_resume op = (case exception op of Some e \<Rightarrow> Inl e | None \<Rightarrow> Inr ())"

definition poll_until_await_resume :: "operation \<Rightarrow> exn + short" where
  "poll_until_await_resume op =
     (case exception op of Some e \<Rightarrow> Inl e | None \<Rightarrow> Inr (revents op))"

definition co_await_wait_until ::
  "nat \<Rightarrow> time_point \<Rightarrow> operation \<Rightarrow> 'w system \<Rightarrow> fault + ('w system \<times> unit await_result)" where
  "co_await_wait_until h now op s =
     co_await (await_ready now) await_suspend wait_until_await_resume h op s"

definition co_await_poll_until ::
  "nat \<Rightarrow> time_point \<Rightarrow> operation \<Rightarrow> 'w system \<Rightarrow> fault + ('w system \<times> short await_result)" where
  "co_await_poll_until h now op s =
     co_await (await_ready now) await_suspend poll_until_await_resume h op s"

definition co_await_poll_once ::
  "nat \<Rightarrow> operation \<Rightarrow> 'w system \<Rightarrow> fault + ('w system \<times> short await_result)" where
  "co_await_poll_once h op s =
     co_await poll_once_await_ready await_suspend poll_until_await_resume h op s"

section \<open>Tasks\<close>

subsection \<open>Coroutine frames\<close>

text \<open>
  The body of a task coroutine, as far as its frame can tell: it suspends at an inner
  \<open>co_await\<close> that is not ready (\<open>Co_suspend\<close>, followed by the rest of the body), it
  returns a value (\<open>co_return v\<close>), or an exception leaves it.
\<close>

datatype 'a co_body = Co_return 'a | Co_throw exn | Co_suspend "'a co_body"

text \<open>
  \<open>detail::promise\<close>. The continuation \<open>None\<close> is \<open>std::noop_coroutine()\<close>, the
  initial value. \<open>p_value\<close> is \<open>None\<close> while \<open>value\<close> is still default-constructed.
\<close>

record 'a promise =
  continuation :: coroutine_handle
  p_value :: "'a option"
  p_exception :: "exn option"

record 'a frame =
  promise :: "'a promise"
  body :: "'a co_body"
  h_done :: bool

definition new_frame :: "'a co_body \<Rightarrow> 'a frame" where
  "new_frame b =
     \<lparr>promise = \<lparr>continuation = None, p_value = None, p_exception = None\<rparr>,
      body = b, h_done = False\<rparr>"

definition return_value :: "'a \<Rightarrow> 'a promise \<Rightarrow> 'a promise" where
  "return_value v p = p\<lparr>p_value := Some v\<rparr>"

definition unhandled_exception :: "exn \<Rightarrow> 'a promise \<Rightarrow> 'a promise" where
  "unhandled_exception e p = p\<lparr>p_exception := Some e\<rparr>"

text \<open>\<open>final_awaiter::await_suspend\<close>: control goes to the stored continuation.\<close>

definition final_suspend :: "'a frame \<Rightarrow> 'a frame \<times> coroutine_handle" where
  "final_suspend f = (f\<lparr>h_done := True\<rparr>, continuation (promise f))"

text \<open>
  Running a frame from its current suspension point to the next one. The second
  component is the coroutine that control is transferred to; \<open>None\<close> means that
  control returns to whoever resumed the frame.
\<close>

definition run :: "'a frame \<Rightarrow> 'a frame \<times> coroutine_handle" where
  "run f =
     (case body f of
        Co_suspend b \<Rightarrow> (f\<lparr>body := b\<rparr>, None)
      | Co_return v \<Rightarrow> final_suspend (f\<lparr>promise := return_value v (promise f)\<rparr>)
      | Co_throw e \<Rightarrow> final_suspend (f\<lparr>promise := unhandled_exception e (promise f)\<rparr>))"

text \<open>\<open>handle.resume()\<close>; resuming a coroutine at its final suspension point is undefined.\<close>

definition handle_resume :: "'a frame \<Rightarrow> fault + 'a frame \<times> coroutine_handle" where
  "handle_resume f = (if h_done f then Inl Undefined_behaviour else Inr (run f))"

text \<open>
  \<open>await_resume\<close> of both task awaiters: it rethrows the stored exception, and otherwise
  returns \<open>std::move(handle.promise().value)\<close>. Moving the value out leaves the stored
  one in the state that the move constructor of \<open>T\<close> leaves its source in; this is the
  parameter \<open>moved_from\<close> (the identity for \<open>int\<close>, the empty string for
  \<open>std::string\<close>).
\<close>

definition task_await_resume ::
  "('a option \<Rightarrow> 'a option) \<Rightarrow> 'a frame \<Rightarrow> 'a frame \<times> (exn + 'a option)" where
  "task_await_resume moved_from f =
     (case p_exception (promise f) of
        Some e \<Rightarrow> (f, Inl e)
      | None \<Rightarrow>
          (f\<lparr>promise := (promise f)\<lparr>p_value := moved_from (p_value (promise f))\<rparr>\<rparr>,
           Inr (p_value (promise f))))"

text \<open>The awaiting coroutine goes on with \<open>await_resume\<close>.\<close>

definition goes_on ::
  "('a option \<Rightarrow> 'a option) \<Rightarrow> 'a frame \<Rightarrow> 'a frame \<times> 'a option await_result" where
  "goes_on moved_from f =
     (case task_await_resume moved_from f of (f', r) \<Rightarrow> (f', Resumed r))"

text \<open>
  What the awaiting coroutine \<open>c\<close> sees after a transfer of control: it goes on with
  \<open>await_resume\<close> when control is handed to it, and stays suspended otherwise.
\<close>

definition transfer_to ::
  "('a option \<Rightarrow> 'a option) \<Rightarrow> nat \<Rightarrow> 'a frame \<times> coroutine_handle \<Rightarrow>
   'a frame \<times> 'a option await_result" where
  "transfer_to moved_from c ft =
     (if snd ft = Some c then goes_on moved_from (fst ft) else (fst ft, Suspended))"

subsection \<open>\<open>lazy_task<T>\<close>\<close>

text \<open>\<open>initial_suspend\<close> is \<open>suspend_always\<close>: the call creates the frame and returns.\<close>

definition lazy_task :: "'a co_body \<Rightarrow> 'a frame" where
  "lazy_task b = new_frame b"

definition lazy_await_ready :: "'a frame \<Rightarrow> bool" where
  "lazy_await_ready f \<longleftrightarrow> h_done f"

text \<open>\<open>await_suspend\<close> returns the task's handle, which is then resumed.\<close>

definition lazy_await_suspend :: "nat \<Rightarrow> 'a frame \<Rightarrow> 'a frame \<times> coroutine_handle" where
  "lazy_await_suspend c f = run (f\<lparr>promise := (promise f)\<lparr>continuation := Some c\<rparr>\<rparr>)"

definition lazy_co_await ::
  "('a option \<Rightarrow> 'a option) \<Rightarrow> nat \<Rightarrow> 'a frame \<Rightarrow> 'a frame \<times> 'a option await_result" where
  "lazy_co_await moved_from c f =
     (if lazy_await_ready f then goes_on moved_from f
      else transfer_to moved_from c (lazy_await_suspend c f))"

text \<open>\<open>~UniqueHandle\<close>: the frame is destroyed where it stands.\<close>

definition unique_handle_destroy :: "'a frame option \<Rightarrow> 'a frame option" where
  "unique_handle_destroy h = None"

text \<open>
  The frame is resumed \<open>n\<close> more times from outside (by whatever its inner awaits
  wait for); the list is what the awaiting coroutine \<open>c\<close> sees after each of them.
\<close>

primrec resume_n ::
  "('a option \<Rightarrow> 'a option) \<Rightarrow> nat \<Rightarrow> nat \<Rightarrow> 'a frame \<Rightarrow>
   fault + 'a frame \<times> 'a option await_result list" where
  "resume_n moved_from c 0 f = Inr (f, [])"
| "resume_n moved_from c (Suc n) f =
     (case handle_resume f of
        Inl x \<Rightarrow> Inl x
      | Inr ft \<Rightarrow>
          (case resume_n moved_from c n (fst (transfer_to moved_from c ft)) of
             Inl x \<Rightarrow> Inl x
           | Inr frs \<Rightarrow> Inr (fst frs, snd (transfer_to moved_from c ft) # snd frs)))"

text \<open>How a body ends, and how often it suspends before.\<close>

fun body_result :: "'a co_body \<Rightarrow> exn + 'a" where
  "body_result (Co_return v) = Inr v"
| "body_result (Co_throw e) = Inl e"
| "body_result (Co_suspend b) = body_result b"

fun suspensions :: "'a co_body \<Rightarrow> nat" where
  "suspensions (Co_suspend b) = Suc (suspensions b)"
| "suspensions b = 0"

subsection \<open>\<open>eager_task<T>\<close>\<close>

text \<open>
  \<open>initial_suspend\<close> is \<open>suspend_never\<close>: the body runs inside the call that creates
  the task, and the call returns when control comes back.
\<close>

definition eager_task :: "'a co_body \<Rightarrow> 'a frame" where
  "eager_task b = fst (run (new_frame b))"

definition eager_await_ready :: "'a frame \<Rightarrow> bool" where
  "eager_await_ready f \<longleftrightarrow> h_done f"

definition eager_await_suspend :: "nat \<Rightarrow> 'a frame \<Rightarrow> 'a frame" where
  "eager_await_suspend c f = f\<lparr>promise := (promise f)\<lparr>continuation := Some c\<rparr>\<rparr>"

definition eager_co_await ::
  "('a option \<Rightarrow> 'a option) \<Rightarrow> nat \<Rightarrow> 'a frame \<Rightarrow> 'a frame \<times> 'a option await_result" where
  "eager_co_await moved_from c f =
     (if eager_await_ready f then goes_on moved_from f
      else (eager_await_suspend c f, Suspended))"

section \<open>\<open>generator<T>\<close>\<close>

datatype 'a gen_body = Gen_yield 'a "'a gen_body" | Gen_return | Gen_throw exn

record 'a gen_promise =
  g_value :: "'a option"
  g_exception :: "exn option"

record 'a gen_frame =
  g_promise :: "'a gen_promise"
  g_body :: "'a gen_body"
  g_done :: bool

text \<open>The generator's call: \<open>initial_suspend\<close> is \<open>suspend_always\<close>.\<close>

definition generator :: "'a gen_body \<Rightarrow> 'a gen_frame option" where
  "generator b =
     Some \<lparr>g_promise = \<lparr>g_value = None, g_exception = None\<rparr>, g_body = b, g_done = False\<rparr>"

text \<open>
  Running the frame to its next suspension point: \<open>yield_value\<close>, or (after
  \<open>return_void\<close> or \<open>unhandled_exception\<close>) \<open>final_suspend\<close>. All of them are
  \<open>suspend_always\<close>, so control returns to the resumer.
\<close>

definition gen_run :: "'a gen_frame \<Rightarrow> 'a gen_frame" where
  "gen_run f =
     (case g_body f of
        Gen_yield v b \<Rightarrow> f\<lparr>g_promise := (g_promise f)\<lparr>g_value := Some v\<rparr>, g_body := b\<rparr>
      | Gen_return \<Rightarrow> f\<lparr>g_done := True\<rparr>
      | Gen_throw e \<Rightarrow> f\<lparr>g_promise := (g_promise f)\<lparr>g_exception := Some e\<rparr>, g_done := True\<rparr>)"

text \<open>\<open>handle.resume()\<close>: undefined on a null handle and on a finished coroutine.\<close>

definition gen_resume :: "'a gen_frame option \<Rightarrow> fault + 'a gen_frame option" where
  "gen_resume h =
     (case h of
        None \<Rightarrow> Inl Undefined_behaviour
      | Some f \<Rightarrow> if g_done f then Inl Undefined_behaviour else Inr (Some (gen_run f)))"

definition gen_begin :: "'a gen_frame option \<Rightarrow> fault + 'a gen_frame option" where
  "gen_begin h = (if h \<noteq> None then gen_resume h else Inr h)"

definition iterator_incr :: "'a gen_frame option \<Rightarrow> fault + 'a gen_frame option" where
  "iterator_incr it = gen_resume it"

definition iterator_deref :: "'a gen_frame option \<Rightarrow> fault + 'a option" where
  "iterator_deref it =
     (case it of None \<Rightarrow> Inl Undefined_behaviour | Some f \<Rightarrow> Inr (g_value (g_promise f)))"

definition iterator_at_end :: "'a gen_frame option \<Rightarrow> bool" where
  "iterator_at_end it \<longleftrightarrow> (case it of None \<Rightarrow> True | Some f \<Rightarrow> g_done f)"

text \<open>
  \<open>await_resume\<close> of the awaiters of \<open>async_generator<T>\<close> (\<open>begin\<close> and
  \<open>operator++\<close>), applied to the stored exception.
\<close>

definition async_await_resume :: "exn option \<Rightarrow> exn + unit" where
  "async_await_resume x = (case x of Some e \<Rightarrow> Inl e | None \<Rightarrow> Inr ())"

text \<open>
  The range-based \<open>for\<close> over a generator:
  \<open>for (auto it = g.begin(); it != g.end(); ++it) visit(*it);\<close>
  The result is the list of values visited, or what stopped the loop.
\<close>

definition remaining_steps :: "'a gen_frame option \<Rightarrow> nat" where
  "remaining_steps it =
     (case it of None \<Rightarrow> 0 | Some f \<Rightarrow> if g_done f then 0 else Suc (size (g_body f)))"

function for_loop :: "'a gen_frame option \<Rightarrow> fault + 'a option list" where
  "for_loop it =
     (if iterator_at_end it then Inr []
      else (case iterator_deref it of
              Inl x \<Rightarrow> Inl x
            | Inr v \<Rightarrow>
                (case iterator_incr it of
                   Inl x \<Rightarrow> Inl x
                 | Inr it' \<Rightarrow>
                     (case for_loop it' of
                        Inl x \<Rightarrow> Inl x
                      | Inr vs \<Rightarrow> Inr (v # vs)))))"
  by pat_completeness auto
termination
proof (relation "measure remaining_steps")
  show "wf (measure remaining_steps)" by simp
next
  fix it :: "'a gen_frame option" and v it'
  assume "\<not> iterator_at_end it" and "iterator_incr it = Inr it'"
  then show "(it', it) \<in> measure remaining_steps"
    by (auto simp: iterator_at_end_def iterator_incr_def gen_resume_def gen_run_def
        remaining_steps_def split: option.splits if_splits gen_body.splits)
qed

definition range_for :: "'a gen_frame option \<Rightarrow> fault + 'a option list" where
  "range_for g = (case gen_begin g of Inl x \<Rightarrow> Inl x | Inr it \<Rightarrow> for_loop it)"

text \<open>The values a body yields before it ends, one way or the other.\<close>

fun yields :: "'a gen_body \<Rightarrow> 'a list" where
  "yields (Gen_yield v b) = v # yields b"
| "yields Gen_return = []"
| "yields (Gen_throw e) = []"


section \<open>The resolution condition in the words of the specification\<close>

text \<open>
  An operation is resolved when its deadline has passed, or when it is bound to a
  descriptor and its observed events meet its interest mask or carry the error, hangup
  or invalid-descriptor condition.
\<close>

definition spec_resolves :: "time_point \<Rightarrow> operation \<Rightarrow> bool" where
  "spec_resolves now op \<longleftrightarrow>
     timeout op \<le> now \<or>
     (fd op \<noteq> - 1 \<and>
        (revents op AND events op \<noteq> 0 \<or> revents op AND POLLERR \<noteq> 0 \<or>
         revents op AND POLLHUP \<noteq> 0 \<or> revents op AND POLLNVAL \<noteq> 0))"

section \<open>The branch a pass takes\<close>

text \<open>
  The predicate \<open>to_remove_pred\<close> and the loop that stores the failure, for the branch
  of \<open>do_pull\<close> that the return value of \<open>poll_fn\<close> selects.
\<close>

definition to_remove :: "poll_result \<Rightarrow> time_point \<Rightarrow> operation \<Rightarrow> bool" where
  "to_remove r now op \<longleftrightarrow>
     (if ret r = - 1 then to_remove_failed now op else to_remove_pred now op)"

definition store_failure :: "poll_result \<Rightarrow> operation \<Rightarrow> operation" where
  "store_failure r op =
     (if ret r = - 1 then set_sys_error (make_sys_error (errno r) ''poll'') op
      else set_poll_error op)"

section \<open>What an awaiter of a task receives\<close>

text \<open>The result of \<open>await_resume\<close> once the body has ended as \<open>body_result\<close> says.\<close>

definition outcome_of :: "'a co_body \<Rightarrow> exn + 'a option" where
  "outcome_of b = (case body_result b of Inl e \<Rightarrow> Inl e | Inr v \<Rightarrow> Inr (Some v))"

section \<open>Sample configurations\<close>

text \<open>
  Concrete registries and environments on which the theorems below are run. The
  descriptor-bound wait \<open>reader\<close> and the two timers are registered by the coroutines
  1, 2 and 3; the clock of the examples reads 100.
\<close>

definition no_reentry :: "unit resume_fn" where
  "no_reentry = detached (\<lambda>op w. w)"

definition failing_poll :: poll_fn where
  "failing_poll fds0 = Some \<lparr>ret = - 1, errno = 12, fds = fds0\<rparr>"

definition reader :: operation where
  "reader = (poll_until 3 POLLIN 1000)\<lparr>handle := Some 1\<rparr>"

definition timer_due :: operation where
  "timer_due = (wait_until 50)\<lparr>handle := Some 2\<rparr>"

definition timer_later :: operation where
  "timer_later = (wait_until 500)\<lparr>handle := Some 3\<rparr>"

definition sample_system :: "unit system" where
  "sample_system = \<lparr>operations = [reader, timer_due, timer_later], trace = [], world = ()\<rparr>"

text \<open>
  Calls of \<open>::poll\<close>: \<open>answering rs\<close> succeeds and reports the events \<open>rs\<close>, entry
  by entry; \<open>interrupted_then rs\<close> is interrupted by a signal once and answers
  then; \<open>failing_sys\<close> fails with \<open>errno\<close> 12.
\<close>

definition answering :: "short list \<Rightarrow> syscall" where
  "answering rs n fds0 =
     \<lparr>ret = int (length (filter (\<lambda>e. e \<noteq> 0) rs)), errno = 0,
      fds = map2 (\<lambda>p e. p\<lparr>pfd_revents := e\<rparr>) fds0 rs\<rparr>"

definition interrupted_then :: "short list \<Rightarrow> syscall" where
  "interrupted_then rs n fds0 =
     (if n = 0 then \<lparr>ret = - 1, errno = EINTR, fds = fds0\<rparr> else answering rs n fds0)"

definition failing_sys :: syscall where
  "failing_sys n fds0 = \<lparr>ret = - 1, errno = 12, fds = fds0\<rparr>"

definition quiet_system :: "unit system" where
  "quiet_system = \<lparr>operations = [reader, timer_later], trace = [], world = ()\<rparr>"

definition reader_due :: operation where
  "reader_due = (poll_until 3 POLLIN 50)\<lparr>handle := Some 4\<rparr>"

definition due_system :: "unit system" where
  "due_system = \<lparr>operations = [reader_due, timer_later], trace = [], world = ()\<rparr>"

text \<open>
  Two descriptor waits and a timer, for the teardown; a continuation that registers the
  later timer the first time it runs (the world is the flag "has registered"); and a
  continuation that awaits a new timer whenever it is resumed.
\<close>

definition writer :: operation where
  "writer = (poll 4 POLLOUT)\<lparr>handle := Some 5\<rparr>"

definition teardown_system :: "unit system" where
  "teardown_system = \<lparr>operations = [reader, writer, timer_later], trace = [], world = ()\<rparr>"

definition registers_once :: "bool resume_fn" where
  "registers_once op = (\<lambda>(ops, w). if w then (ops, w) else (ops @ [timer_later], True))"

definition awaits_again :: "unit resume_fn" where
  "awaits_again op = (\<lambda>(ops, w). (ops @ [(wait_until 900)\<lparr>handle := handle op\<rparr>], w))"

text \<open>
  Coroutines that do not re-enter the reactor and write down what they are resumed
  with: their handle and what \<open>await_resume\<close> gives them (for a timer, the mask is the
  operation's \<open>revents\<close>). The world is the list of these notes.
\<close>

definition recording :: "(coroutine_handle \<times> (exn + short)) list resume_fn" where
  "recording = detached (\<lambda>op w. w @ [(handle op, poll_until_await_resume op)])"

definition recording_system :: "(coroutine_handle \<times> (exn + short)) list system" where
  "recording_system = \<lparr>operations = [reader, timer_due, timer_later], trace = [], world = []\<rparr>"

definition recording_teardown :: "(coroutine_handle \<times> (exn + short)) list system" where
  "recording_teardown = \<lparr>operations = [reader, writer, timer_later], trace = [], world = []\<rparr>"

section \<open>Auxiliary facts\<close>

declare for_loop.simps [simp del]

lemmas sample_defs = no_reentry_def failing_poll_def reader_def timer_due_def timer_later_def
  sample_system_def poll_until_def wait_until_def detached_def make_fds_def
  answering_def interrupted_then_def failing_sys_def quiet_system_def reader_due_def
  due_system_def writer_def teardown_system_def poll_def recording_def recording_system_def
  recording_teardown_def

lemma length_store_revents: "length (store_revents ops ps) = length ops"
  by (induction ops ps rule: store_revents.induct) simp_all

lemma store_revents_keeps:
  "x \<in> set (store_revents ops ps) \<Longrightarrow>
     \<exists>op\<in>set ops. fd x = fd op \<and> events x = events op \<and> timeout x = timeout op \<and>
       handle x = handle op \<and> exception x = exception op"
  by (induction ops ps rule: store_revents.induct) auto

lemma trace_resume_all:
  "map fst (trace (resume_all k rs s)) = map fst (trace s) @ rs"
  by (induction rs arbitrary: s) (simp_all add: resume_def split: prod.splits)

lemma scan_failed:
  "ret r = - 1 \<Longrightarrow> scan r now ops0 =
        (filter (\<lambda>op. \<not> to_remove_failed now op) (store_revents ops0 (fds r)),
         map (set_sys_error (System_error (errno r) ''poll''))
           (filter (to_remove_failed now) (store_revents ops0 (fds r))))"
  by (simp add: scan_def make_sys_error_def Let_def)

lemma scan_ok:
  "ret r \<noteq> - 1 \<Longrightarrow> scan r now ops0 =
        (filter (\<lambda>op. \<not> to_remove_pred now op) (store_revents ops0 (fds r)),
         map set_poll_error (filter (to_remove_pred now) (store_revents ops0 (fds r))))"
  by (simp add: scan_def Let_def)

lemma and_or_zero: "(x AND (a OR b) = 0) = (x AND a = 0 \<and> x AND b = 0)" for x :: short
  by (simp add: bit.conj_disj_distrib or_eq_0_iff)


lemma to_remove_pred_spec: "to_remove_pred now op = spec_resolves now op"
  by (auto simp: to_remove_pred_def spec_resolves_def and_or_zero)

lemma set_poll_error_keeps [simp]:
  "fd (set_poll_error op) = fd op" "events (set_poll_error op) = events op"
  "revents (set_poll_error op) = revents op" "timeout (set_poll_error op) = timeout op"
  "handle (set_poll_error op) = handle op"
  by (simp_all add: set_poll_error_def)

lemma to_remove_pred_set_poll_error [simp]:
  "to_remove_pred now (set_poll_error op) = to_remove_pred now op"
  by (simp add: to_remove_pred_def)

lemma pull_poll_fn_answering:
  "pull_poll_fn (answering rs) n fds0 = Some (answering rs n fds0)"
  by (subst pull_poll_fn.simps) (simp add: answering_def)

lemma pull_poll_fn_interrupted:
  "pull_poll_fn (interrupted_then rs) 0 fds0 = Some (answering rs 1 fds0)"
  by (subst pull_poll_fn.simps, subst pull_poll_fn.simps)
    (simp add: interrupted_then_def answering_def EINTR_def)

lemma resume_detached:
  "resume (detached g) op s = \<lparr>operations = operations s, trace = trace s @ [(op, operations s)], world = g op (world s)\<rparr>"
  by (simp add: resume_def detached_def)

lemma resume_all_foldl:
  "resume_all k rs s =
     foldl (\<lambda>s x. case k x (operations s, world s) of
                     (ops', w') \<Rightarrow>
                       \<lparr>operations = ops', trace = trace s @ [(x, operations s)], world = w'\<rparr>)
       s rs"
  by (induction rs arbitrary: s) (simp_all add: resume_def)

lemma resume_all_detached:
  "resume_all (detached g) rs s =
     \<lparr>operations = operations s, trace = trace s @ map (\<lambda>x. (x, operations s)) rs,
      world = foldl (\<lambda>w x. g x w) (world s) rs\<rparr>"
  by (induction rs arbitrary: s) (simp_all add: resume_detached)

lemma destroy_detached_full:
  "\<exists>s'. destroy (detached g) s = Some s' \<and> operations s' = [] \<and>
     map fst (trace s') =
       map fst (trace s) @ map (\<lambda>op. op\<lparr>exception := Some destroyed\<rparr>) (rev (operations s)) \<and>
     world s' =
       foldl (\<lambda>w x. g x w) (world s)
         (map (\<lambda>op. op\<lparr>exception := Some destroyed\<rparr>) (rev (operations s)))"
proof (induction "operations s" arbitrary: s rule: rev_induct)
  case Nil
  then show ?case by (subst destroy.simps) simp
next
  case (snoc op ops)
  let ?s1 = "resume (detached g) (op\<lparr>exception := Some destroyed\<rparr>) (s\<lparr>operations := ops\<rparr>)"
  have ops: "operations s = ops @ [op]" using snoc.hyps(2) by simp
  have "ops = operations ?s1" by (simp add: resume_detached)
  from snoc.hyps(1) [OF this] obtain s' where s': "destroy (detached g) ?s1 = Some s'"
    "operations s' = []"
    "map fst (trace s') = map fst (trace ?s1) @
       map (\<lambda>op. op\<lparr>exception := Some destroyed\<rparr>) (rev (operations ?s1))"
    "world s' = foldl (\<lambda>w x. g x w) (world ?s1)
         (map (\<lambda>op. op\<lparr>exception := Some destroyed\<rparr>) (rev (operations ?s1)))"
    by blast
  have "destroy (detached g) s = destroy (detached g) ?s1"
    by (subst destroy.simps) (simp add: ops Let_def)
  then show ?case using s' by (simp add: ops resume_detached)
qed

lemma destroy_returns:
  assumes "destroy k s = Some s'"
  shows "operations s' = [] \<and>
     (\<exists>ext. trace s' = trace s @ ext \<and> (\<forall>x\<in>set ext. exception (fst x) = Some destroyed))"
  using assms
proof (induction k s s' rule: destroy.raw_induct [rotated 1, consumes 1, case_names step])
  case (step d k s s')
  show ?case
  proof (cases "operations s = []")
    case True
    then show ?thesis using step(2) by simp
  next
    case False
    let ?op = "(last (operations s))\<lparr>exception := Some destroyed\<rparr>"
    let ?s1 = "resume k ?op (s\<lparr>operations := butlast (operations s)\<rparr>)"
    have eq: "d k ?s1 = Some s'" using step(2) False by (simp add: Let_def)
    from step(1) [OF eq] obtain ext where ih: "operations s' = []"
      "trace s' = trace ?s1 @ ext" "\<forall>x\<in>set ext. exception (fst x) = Some destroyed"
      by blast
    have tr: "trace ?s1 = trace s @ [(?op, butlast (operations s))]"
      by (simp add: resume_def split: prod.splits)
    have "trace s' = trace s @ ((?op, butlast (operations s)) # ext)"
      using ih(2) tr by simp
    moreover have "\<forall>x\<in>set ((?op, butlast (operations s)) # ext). exception (fst x) = Some destroyed"
      using ih(3) by simp
    ultimately show ?thesis using ih(1) by blast
  qed
qed

lemma destroy_registering:
  assumes "destroy k s = Some s'" and "only_registers k"
  shows "operations s' = [] \<and>
     (\<exists>ext. trace s' = trace s @ ext \<and> (\<forall>x\<in>set ext. exception (fst x) = Some destroyed) \<and>
        subseq (map (\<lambda>op. op\<lparr>exception := Some destroyed\<rparr>) (rev (operations s))) (map fst ext))"
  using assms
proof (induction k s s' rule: destroy.raw_induct [rotated 1, consumes 1, case_names step])
  case (step d k s s')
  let ?D = "\<lambda>op. op\<lparr>exception := Some destroyed\<rparr>"
  show ?case
  proof (cases "operations s = []")
    case True
    then show ?thesis using step(2) by simp
  next
    case False
    let ?x = "last (operations s)"
    let ?xs = "butlast (operations s)"
    let ?s1 = "resume k (?D ?x) (s\<lparr>operations := ?xs\<rparr>)"
    have eq: "d k ?s1 = Some s'" using step(2) False by (simp add: Let_def)
    from step(1) [OF eq step(3)] obtain ext where ih: "operations s' = []"
      "trace s' = trace ?s1 @ ext" "\<forall>x\<in>set ext. exception (fst x) = Some destroyed"
      "subseq (map ?D (rev (operations ?s1))) (map fst ext)"
      by blast
    have tr: "trace ?s1 = trace s @ [(?D ?x, ?xs)]"
      by (simp add: resume_def split: prod.splits)
    have o1: "operations ?s1 = fst (k (?D ?x) (?xs, world s))"
      by (simp add: resume_def split: prod.splits)
    obtain new where new: "fst (k (?D ?x) (?xs, world s)) = ?xs @ new"
      using step(3) unfolding only_registers_def by blast
    have big: "subseq (map ?D (rev new) @ map ?D (rev ?xs)) (map fst ext)"
      using ih(4) by (simp add: o1 new)
    have "subseq (map ?D (rev ?xs)) (map ?D (rev new) @ map ?D (rev ?xs))"
      by (rule list_emb_append2) (rule subseq_order.refl)
    then have sub: "subseq (map ?D (rev ?xs)) (map fst ext)"
      using big by (rule subseq_order.trans)
    have ops: "operations s = ?xs @ [?x]" using False by simp
    have "trace s' = trace s @ ((?D ?x, ?xs) # ext)"
      using ih(2) tr by simp
    moreover have "\<forall>x\<in>set ((?D ?x, ?xs) # ext). exception (fst x) = Some destroyed"
      using ih(3) by simp
    moreover have "subseq (map ?D (rev (operations s))) (map fst ((?D ?x, ?xs) # ext))"
      using sub by (subst ops) simp
    ultimately show ?thesis using ih(1) by blast
  qed
qed

lemma destroy_awaits_again_aux:
  assumes "destroy k s = Some s'" and "k = awaits_again"
  shows "operations s = []"
  using assms
proof (induction k s s' rule: destroy.raw_induct [rotated 1, consumes 1, case_names step])
  case (step d k s s')
  show ?case
  proof (rule ccontr)
    assume ne: "operations s \<noteq> []"
    let ?s1 = "resume k ((last (operations s))\<lparr>exception := Some destroyed\<rparr>)
                 (s\<lparr>operations := butlast (operations s)\<rparr>)"
    have "d k ?s1 = Some s'" using step(2) ne by (simp add: Let_def)
    from step(1) [OF this step(3)] have "operations ?s1 = []" .
    then show False
      by (simp add: step(3) resume_def awaits_again_def)
  qed
qed

lemma destroy_awaits_again: "operations s \<noteq> [] \<Longrightarrow> destroy awaits_again s = None"
  using destroy_awaits_again_aux [of awaits_again s] by (cases "destroy awaits_again s") auto


lemma set_sys_error_keeps [simp]:
  "fd (set_sys_error e op) = fd op" "timeout (set_sys_error e op) = timeout op"
  by (simp_all add: set_sys_error_def)

lemma to_remove_store_failure [simp]: "to_remove r now (store_failure r op) = to_remove r now op"
  by (simp add: to_remove_def store_failure_def to_remove_failed_def)

lemma scan_eq:
  "scan r now ops0 =
     (filter (\<lambda>op. \<not> to_remove r now op) (store_revents ops0 (fds r)),
      map (store_failure r) (filter (to_remove r now) (store_revents ops0 (fds r))))"
  by (cases "ret r = - 1")
    (simp_all add: scan_def Let_def to_remove_def store_failure_def cong: map_cong filter_cong)

lemma set_sys_error_revents [simp]:
  "revents (set_sys_error e op) = revents op" "events (set_sys_error e op) = events op"
  by (simp_all add: set_sys_error_def)

lemma scan_keeps_fresh:
  assumes "scan r now ops = (remaining, to_resume)" and "\<forall>op\<in>set ops. exception op = None"
  shows "\<forall>op\<in>set remaining. exception op = None"
proof -
  have "set remaining \<subseteq> set (store_revents ops (fds r))"
    using assms(1) by (auto simp: scan_eq)
  then show ?thesis
    using store_revents_keeps assms(2) by (metis subsetD)
qed

lemma await_suspend_keeps_fresh:
  assumes "await_suspend h op s = Inr s'" and "exception op = None"
    and "\<forall>x\<in>set (operations s). exception x = None"
  shows "\<forall>x\<in>set (operations s'). exception x = None"
  using assms by (auto simp: await_suspend_def add_operation_def split: if_splits)



lemma run_delivers:
  assumes "\<not> h_done f" "continuation (promise f) = Some c" "p_exception (promise f) = None"
    "body f = b"
  shows "\<exists>f2 rs. resume_n mv c (suspensions b) (fst (transfer_to mv c (run f))) = Inr (f2, rs) \<and>
           snd (transfer_to mv c (run f)) # rs =
             replicate (suspensions b) Suspended @ [Resumed (outcome_of b)] \<and>
           h_done f2 \<and>
           p_exception (promise f2) = (case body_result b of Inl e \<Rightarrow> Some e | Inr v \<Rightarrow> None)"
  using assms
proof (induction b arbitrary: f)
  case (Co_return v)
  then show ?case
    by (simp add: run_def final_suspend_def return_value_def transfer_to_def goes_on_def
        task_await_resume_def outcome_of_def)
next
  case (Co_throw e)
  then show ?case
    by (simp add: run_def final_suspend_def unhandled_exception_def transfer_to_def goes_on_def
        task_await_resume_def outcome_of_def)
next
  case (Co_suspend b)
  let ?f1 = "f\<lparr>body := b\<rparr>"
  have r: "run f = (?f1, None)" using Co_suspend.prems by (simp add: run_def)
  have t: "transfer_to mv c (run f) = (?f1, Suspended)"
    by (simp add: r transfer_to_def)
  have "\<not> h_done ?f1" "continuation (promise ?f1) = Some c" "p_exception (promise ?f1) = None"
    "body ?f1 = b"
    using Co_suspend.prems by simp_all
  from Co_suspend.IH [OF this] obtain f2 rs where ih:
    "resume_n mv c (suspensions b) (fst (transfer_to mv c (run ?f1))) = Inr (f2, rs)"
    "snd (transfer_to mv c (run ?f1)) # rs =
       replicate (suspensions b) Suspended @ [Resumed (outcome_of b)]"
    "h_done f2"
    "p_exception (promise f2) = (case body_result b of Inl e \<Rightarrow> Some e | Inr v \<Rightarrow> None)"
    by blast
  have "resume_n mv c (suspensions (Co_suspend b)) (fst (transfer_to mv c (run f))) =
      Inr (f2, snd (transfer_to mv c (run ?f1)) # rs)"
    using ih(1) Co_suspend.prems(1) by (simp add: t handle_resume_def)
  moreover have "outcome_of (Co_suspend b) = outcome_of b"
    by (simp add: outcome_of_def)
  ultimately show ?case using ih(2,3,4) by (simp add: t)
qed

lemma for_loop_yields:
  assumes "\<not> g_done f" "g_body f = b"
  shows "for_loop (Some f) = Inr (g_value (g_promise f) # map Some (yields b))"
  using assms
proof (induction b arbitrary: f)
  case (Gen_yield w b)
  let ?f1 = "f\<lparr>g_promise := (g_promise f)\<lparr>g_value := Some w\<rparr>, g_body := b\<rparr>"
  have "for_loop (Some ?f1) = Inr (Some w # map Some (yields b))"
    using Gen_yield.IH [of ?f1] Gen_yield.prems by simp
  then show ?case
    using Gen_yield.prems
    by (subst for_loop.simps)
      (simp add: iterator_at_end_def iterator_deref_def iterator_incr_def gen_resume_def gen_run_def)
next
  case Gen_return
  then show ?case
    by (subst for_loop.simps, subst for_loop.simps)
      (simp add: iterator_at_end_def iterator_deref_def iterator_incr_def gen_resume_def gen_run_def)
next
  case (Gen_throw e)
  then show ?case
    by (subst for_loop.simps, subst for_loop.simps)
      (simp add: iterator_at_end_def iterator_deref_def iterator_incr_def gen_resume_def gen_run_def)
qed

lemma range_for_yields: "range_for (generator b) = Inr (map Some (yields b))"
proof (cases b)
  case (Gen_yield w b')
  then show ?thesis
    using for_loop_yields [of "\<lparr>g_promise = \<lparr>g_value = Some w, g_exception = None\<rparr>, g_body = b', g_done = False\<rparr>" b']
    by (simp add: range_for_def generator_def gen_begin_def gen_resume_def gen_run_def)
next
  case Gen_return
  then show ?thesis
    by (simp add: range_for_def generator_def gen_begin_def gen_resume_def gen_run_def
        for_loop.simps iterator_at_end_def)
next
  case (Gen_throw e)
  then show ?thesis
    by (simp add: range_for_def generator_def gen_begin_def gen_resume_def gen_run_def
        for_loop.simps iterator_at_end_def)
qed

lemma eager_then_await:
  "\<exists>f2. resume_n mv c (Suc (suspensions b))
            (fst (eager_co_await mv c (eager_task (Co_suspend b)))) =
          Inr (f2, replicate (suspensions b) Suspended @ [Resumed (outcome_of b)])"
proof -
  let ?f1 = "(new_frame b)\<lparr>promise := (promise (new_frame b))\<lparr>continuation := Some c\<rparr>\<rparr>"
  have f1: "fst (eager_co_await mv c (eager_task (Co_suspend b))) = ?f1"
    by (simp add: eager_co_await_def eager_await_ready_def eager_await_suspend_def
        eager_task_def run_def new_frame_def)
  have "\<not> h_done ?f1" "continuation (promise ?f1) = Some c" "p_exception (promise ?f1) = None"
    "body ?f1 = b"
    by (simp_all add: new_frame_def)
  from run_delivers [OF this] obtain f2 rs where d:
    "resume_n mv c (suspensions b) (fst (transfer_to mv c (run ?f1))) = Inr (f2, rs)"
    "snd (transfer_to mv c (run ?f1)) # rs =
       replicate (suspensions b) Suspended @ [Resumed (outcome_of b)]"
    by blast
  have "resume_n mv c (Suc (suspensions b)) ?f1 =
      Inr (f2, snd (transfer_to mv c (run ?f1)) # rs)"
    using d(1) by (simp add: handle_resume_def new_frame_def)
  then show ?thesis using d(2) f1 by simp
qed

section \<open>The claims\<close>

text \<open>
  C2. When the call of \<open>poll_fn\<close> in a pass of \<open>do_pull\<close> returns \<open>-1\<close>: every
  registered operation with a descriptor (\<open>fd \<noteq> -1\<close>) leaves the registry and is resumed
  with the captured system error, so that its \<open>await_resume\<close> raises it; every pure timer
  whose deadline has passed leaves the registry and is resumed with no failure; every
  pure timer whose deadline has not passed stays registered and is not resumed. Being
  resumed means that the continuation of each removed operation is run, in registration
  order, on the operation as the pass left it and on the registry and the world as the
  previous continuation left them; coroutines that do not re-enter the reactor thus
  leave the registry at the pending timers and change the world one after the other.
  The operations are taken with the events the call left for them; registered operations
  carry no failure, as the awaiters create them.
\<close>

theorem poll_failure_pass:
  assumes call: "poll_fn (make_fds (operations s)) = Some r"
    and failed: "ret r = - 1"
    and fresh: "\<forall>op\<in>set (operations s). exception op = None"
    and sc: "scan r now (operations s) = (remaining, to_resume)"
  shows "do_pull k poll_fn now s =
      Some (foldl (\<lambda>st x. case k x (operations st, world st) of
                     (ops', w') \<Rightarrow>
                       \<lparr>operations = ops', trace = trace st @ [(x, operations st)], world = w'\<rparr>)
              (s\<lparr>operations := remaining\<rparr>) to_resume)
    \<and> do_pull (detached g) poll_fn now s =
      Some \<lparr>operations = remaining, trace = trace s @ map (\<lambda>x. (x, remaining)) to_resume,
            world = foldl (\<lambda>w x. g x w) (world s) to_resume\<rparr>
    \<and> (\<forall>op\<in>set (store_revents (operations s) (fds r)).
          (fd op \<noteq> - 1 \<longrightarrow>
             op \<notin> set remaining \<and>
             op\<lparr>exception := Some (System_error (errno r) ''poll'')\<rparr> \<in> set to_resume) \<and>
          (fd op = - 1 \<and> timeout op \<le> now \<longrightarrow>
             op \<notin> set remaining \<and> op \<in> set to_resume \<and> exception op = None) \<and>
          (fd op = - 1 \<and> now < timeout op \<longrightarrow>
             op \<in> set remaining \<and> op \<notin> set to_resume))
    \<and> (\<forall>x\<in>set to_resume.
          if fd x \<noteq> - 1 then poll_until_await_resume x = Inl (System_error (errno r) ''poll'')
          else timeout x \<le> now \<and> wait_until_await_resume x = Inr ())"
proof -
  let ?ops = "store_revents (operations s) (fds r)"
  let ?e = "System_error (errno r) ''poll''"
  have ex: "exception x = None" if "x \<in> set ?ops" for x
    using store_revents_keeps [OF that] fresh by auto
  have rem: "remaining = filter (\<lambda>op. \<not> to_remove_failed now op) ?ops"
    and res: "to_resume = map (set_sys_error ?e) (filter (to_remove_failed now) ?ops)"
    using sc scan_failed [OF failed, of now "operations s"] by simp_all
  have 1: "do_pull k poll_fn now s =
      Some (foldl (\<lambda>st x. case k x (operations st, world st) of
                     (ops', w') \<Rightarrow>
                       \<lparr>operations = ops', trace = trace st @ [(x, operations st)], world = w'\<rparr>)
              (s\<lparr>operations := remaining\<rparr>) to_resume)"
    using call sc by (simp add: do_pull_def resume_all_foldl)
  have r1: "do_pull (detached g) poll_fn now s =
      Some \<lparr>operations = remaining, trace = trace s @ map (\<lambda>x. (x, remaining)) to_resume,
            world = foldl (\<lambda>w x. g x w) (world s) to_resume\<rparr>"
    using call sc by (simp add: do_pull_def resume_all_detached)
  have 2: "fd op \<noteq> - 1 \<longrightarrow> op \<notin> set remaining \<and> op\<lparr>exception := Some ?e\<rparr> \<in> set to_resume"
    if "op \<in> set ?ops" for op
    using that
    by (auto simp: rem res to_remove_failed_def set_sys_error_def image_iff
        intro!: bexI [of _ op])
  have 3: "fd op = - 1 \<and> timeout op \<le> now \<longrightarrow>
             op \<notin> set remaining \<and> op \<in> set to_resume \<and> exception op = None"
    if "op \<in> set ?ops" for op
    using that ex [OF that]
    by (auto simp: rem res to_remove_failed_def set_sys_error_def image_iff
        intro!: bexI [of _ op])
  have 4: "fd op = - 1 \<and> now < timeout op \<longrightarrow> op \<in> set remaining \<and> op \<notin> set to_resume"
    if "op \<in> set ?ops" for op
    using that
    by (auto simp: rem res to_remove_failed_def set_sys_error_def image_iff split: if_splits)
  have 5: "if fd x \<noteq> - 1 then poll_until_await_resume x = Inl ?e
          else timeout x \<le> now \<and> wait_until_await_resume x = Inr ()"
    if "x \<in> set to_resume" for x
    using that ex
    by (auto simp: res to_remove_failed_def set_sys_error_def
        poll_until_await_resume_def wait_until_await_resume_def split: if_splits)
  show ?thesis using 1 r1 2 3 4 5 by blast
qed

text \<open>
  The sample registry under a failing call (\<open>errno\<close> 12) at time 100, with coroutines
  that write down what they are resumed with: coroutine 1 (the reader) notes the system
  error, coroutine 2 (the timer that was due) a normal result, and the later timer stays.
\<close>

theorem poll_failure_pass_witness:
  "do_pull recording failing_poll 100 recording_system =
     Some \<lparr>operations = [timer_later],
           trace = [(reader\<lparr>exception := Some (System_error 12 ''poll'')\<rparr>, [timer_later]),
                    (timer_due, [timer_later])],
           world = [(Some 1, Inl (System_error 12 ''poll'')), (Some 2, Inr 0)]\<rparr>
   \<and> poll_until_await_resume (reader\<lparr>exception := Some (System_error 12 ''poll'')\<rparr>)
       = Inl (System_error 12 ''poll'')
   \<and> wait_until_await_resume timer_due = Inr ()"
proof -
  let ?r = "\<lparr>ret = - 1, errno = 12, fds = make_fds (operations recording_system)\<rparr>"
  let ?res = "[reader\<lparr>exception := Some (System_error 12 ''poll'')\<rparr>, timer_due]"
  have h1: "failing_poll (make_fds (operations recording_system)) = Some ?r"
    by (simp add: failing_poll_def)
  have h2: "ret ?r = - 1" by simp
  have h3: "\<forall>op\<in>set (operations recording_system). exception op = None"
    by (simp add: sample_defs)
  have h4: "scan ?r 100 (operations recording_system) = ([timer_later], ?res)"
    by (simp add: sample_defs scan_def to_remove_failed_def set_sys_error_def make_sys_error_def)
  note T = poll_failure_pass [where poll_fn = failing_poll and k = recording
      and g = "\<lambda>op w. w @ [(handle op, poll_until_await_resume op)]", OF h1 h2 h3 h4]
  have a: "do_pull recording failing_poll 100 recording_system =
      Some (foldl (\<lambda>st x. case recording x (operations st, world st) of
                     (ops', w') \<Rightarrow>
                       \<lparr>operations = ops', trace = trace st @ [(x, operations st)], world = w'\<rparr>)
              (recording_system\<lparr>operations := [timer_later]\<rparr>) ?res)"
    using T by blast
  have b: "\<forall>x\<in>set ?res.
      if fd x \<noteq> - 1 then poll_until_await_resume x = Inl (System_error (errno ?r) ''poll'')
      else timeout x \<le> 100 \<and> wait_until_await_resume x = Inr ()"
    using T by blast
  show ?thesis
    using a b by (simp add: sample_defs poll_until_await_resume_def)
qed



text \<open>
  C4, as stated, fails: a pass of \<open>pull\<close> whose call of \<open>::poll\<close> fails resolves
  every descriptor-bound operation, whatever its events and its deadline. Here two
  operations are registered, nothing is ready and no deadline has passed, and the
  reader is resumed all the same.
\<close>

theorem nonblocking_pass_counterexample:
  "pull no_reentry failing_sys 100 quiet_system =
     Some \<lparr>operations = [timer_later],
           trace = [(reader\<lparr>exception := Some (System_error 12 ''poll'')\<rparr>, [timer_later])],
           world = ()\<rparr>
   \<and> \<not> spec_resolves 100 reader"
proof -
  have "pull_poll_fn failing_sys 0 (make_fds (operations quiet_system)) =
      Some \<lparr>ret = - 1, errno = 12, fds = make_fds (operations quiet_system)\<rparr>"
    by (subst pull_poll_fn.simps) (simp add: failing_sys_def EINTR_def)
  then show ?thesis
    by (simp add: pull_def do_pull_def scan_def sample_defs to_remove_failed_def
        set_sys_error_def make_sys_error_def resume_def spec_resolves_def)
qed

text \<open>
  C4, amended: a pass of \<open>pull\<close> whose call of \<open>::poll\<close> does not fail takes one
  snapshot of the registered operations and resolves an operation if and only if its
  deadline has passed or, for a descriptor-bound one, its observed events meet its
  interest mask or carry the error, hangup or invalid-descriptor flag. The resolved
  operations leave the registry and are resumed in this pass, the others stay. In
  particular, when nothing is ready and no deadline has passed, nothing is resumed and
  all the operations stay registered.
\<close>

theorem nonblocking_pass:
  assumes call: "pull_poll_fn sys 0 (make_fds (operations s)) = Some r"
    and ok: "ret r \<noteq> - 1"
    and sc: "scan r now (operations s) = (remaining, to_resume)"
  shows "pull k sys now s = Some (resume_all k to_resume (s\<lparr>operations := remaining\<rparr>))
    \<and> map fst (trace (resume_all k to_resume (s\<lparr>operations := remaining\<rparr>)))
        = map fst (trace s) @ to_resume
    \<and> (\<forall>op\<in>set (store_revents (operations s) (fds r)).
          (set_poll_error op \<in> set to_resume \<longleftrightarrow> spec_resolves now op) \<and>
          (op \<in> set remaining \<longleftrightarrow> \<not> spec_resolves now op))
    \<and> ((\<forall>op\<in>set (store_revents (operations s) (fds r)). revents op = 0 \<and> now < timeout op) \<longrightarrow>
          to_resume = [] \<and> remaining = store_revents (operations s) (fds r) \<and>
          length remaining = length (operations s) \<and>
          pull k sys now s = Some (s\<lparr>operations := remaining\<rparr>))
    \<and> pull k sys now s =
      Some (foldl (\<lambda>st x. case k x (operations st, world st) of
                     (ops', w') \<Rightarrow>
                       \<lparr>operations = ops', trace = trace st @ [(x, operations st)], world = w'\<rparr>)
              (s\<lparr>operations := remaining\<rparr>) to_resume)
    \<and> pull (detached g) sys now s =
      Some \<lparr>operations = remaining, trace = trace s @ map (\<lambda>x. (x, remaining)) to_resume,
            world = foldl (\<lambda>w x. g x w) (world s) to_resume\<rparr>"
proof -
  let ?ops = "store_revents (operations s) (fds r)"
  have rem: "remaining = filter (\<lambda>op. \<not> to_remove_pred now op) ?ops"
    and res: "to_resume = map set_poll_error (filter (to_remove_pred now) ?ops)"
    using sc scan_ok [OF ok, of now "operations s"] by simp_all
  have 1: "pull k sys now s = Some (resume_all k to_resume (s\<lparr>operations := remaining\<rparr>))"
    using call sc by (simp add: pull_def do_pull_def)
  have 2: "map fst (trace (resume_all k to_resume (s\<lparr>operations := remaining\<rparr>)))
        = map fst (trace s) @ to_resume"
    by (simp add: trace_resume_all)
  have 3: "(set_poll_error op \<in> set to_resume \<longleftrightarrow> spec_resolves now op) \<and>
          (op \<in> set remaining \<longleftrightarrow> \<not> spec_resolves now op)"
    if "op \<in> set ?ops" for op
  proof -
    have "set_poll_error op \<in> set to_resume \<Longrightarrow> to_remove_pred now op"
    proof -
      assume "set_poll_error op \<in> set to_resume"
      then obtain y where "to_remove_pred now y" "set_poll_error y = set_poll_error op"
        by (auto simp: res)
      then show ?thesis
        by (metis to_remove_pred_set_poll_error)
    qed
    moreover have "to_remove_pred now op \<Longrightarrow> set_poll_error op \<in> set to_resume"
      using that by (simp add: res)
    ultimately show ?thesis
      using that by (auto simp: rem to_remove_pred_spec)
  qed
  have 4: "to_resume = [] \<and> remaining = ?ops \<and> length remaining = length (operations s) \<and>
          pull k sys now s = Some (s\<lparr>operations := remaining\<rparr>)"
    if q: "\<forall>op\<in>set ?ops. revents op = 0 \<and> now < timeout op"
  proof -
    have none: "\<forall>op\<in>set ?ops. \<not> to_remove_pred now op"
      using q by (auto simp: to_remove_pred_def)
    then have "to_resume = []" and "remaining = ?ops"
      by (simp_all add: res rem)
    then show ?thesis
      using 1 by (simp add: length_store_revents)
  qed
  have 5: "pull k sys now s =
      Some (foldl (\<lambda>st x. case k x (operations st, world st) of
                     (ops', w') \<Rightarrow>
                       \<lparr>operations = ops', trace = trace st @ [(x, operations st)], world = w'\<rparr>)
              (s\<lparr>operations := remaining\<rparr>) to_resume)"
    using call sc by (simp add: pull_def do_pull_def resume_all_foldl)
  have 6: "pull (detached g) sys now s =
      Some \<lparr>operations = remaining, trace = trace s @ map (\<lambda>x. (x, remaining)) to_resume,
            world = foldl (\<lambda>w x. g x w) (world s) to_resume\<rparr>"
    using call sc by (simp add: pull_def do_pull_def resume_all_detached)
  show ?thesis using 1 2 3 4 5 6 by blast
qed


text \<open>
  Two passes over the sample registries: one in which the reader is ready and a timer
  is due, and one (after an interrupted call) in which nothing is ready. In the first
  the coroutines write down what they are resumed with.
\<close>

theorem nonblocking_pass_witness:
  "pull no_reentry (answering [POLLIN, 0, 0]) 100 sample_system =
     Some \<lparr>operations = [timer_later],
           trace = [(reader\<lparr>revents := POLLIN\<rparr>, [timer_later]), (timer_due, [timer_later])],
           world = ()\<rparr>
   \<and> pull no_reentry (interrupted_then [0, 0]) 100 quiet_system = Some quiet_system
   \<and> pull recording (answering [POLLIN, 0, 0]) 100 recording_system =
     Some \<lparr>operations = [timer_later],
           trace = [(reader\<lparr>revents := POLLIN\<rparr>, [timer_later]), (timer_due, [timer_later])],
           world = [(Some 1, Inr POLLIN), (Some 2, Inr 0)]\<rparr>"
proof -
  let ?ra = "answering [POLLIN, 0, 0] 0 (make_fds (operations sample_system))"
  let ?rb = "answering [0, 0] 1 (make_fds (operations quiet_system))"
  let ?rc = "answering [POLLIN, 0, 0] 0 (make_fds (operations recording_system))"
  let ?res = "[reader\<lparr>revents := POLLIN\<rparr>, timer_due]"
  have a1: "pull_poll_fn (answering [POLLIN, 0, 0]) 0 (make_fds (operations sample_system)) = Some ?ra"
    by (rule pull_poll_fn_answering)
  have a2: "ret ?ra \<noteq> - 1" by (simp add: answering_def)
  have a3: "scan ?ra 100 (operations sample_system) = ([timer_later], ?res)"
    by (simp add: sample_defs scan_def to_remove_pred_def set_poll_error_def
        POLLIN_def POLLERR_def POLLHUP_def POLLNVAL_def)
  have b1: "pull_poll_fn (interrupted_then [0, 0]) 0 (make_fds (operations quiet_system)) = Some ?rb"
    by (rule pull_poll_fn_interrupted)
  have b2: "ret ?rb \<noteq> - 1" by (simp add: answering_def)
  have b3: "scan ?rb 100 (operations quiet_system) = ([reader, timer_later], [])"
    by (simp add: sample_defs scan_def to_remove_pred_def set_poll_error_def
        POLLIN_def POLLERR_def POLLHUP_def POLLNVAL_def)
  have b4: "\<forall>op\<in>set (store_revents (operations quiet_system) (fds ?rb)). revents op = 0 \<and> 100 < timeout op"
    by (simp add: sample_defs)
  have c1: "pull_poll_fn (answering [POLLIN, 0, 0]) 0 (make_fds (operations recording_system)) = Some ?rc"
    by (rule pull_poll_fn_answering)
  have c2: "ret ?rc \<noteq> - 1" by (simp add: answering_def)
  have c3: "scan ?rc 100 (operations recording_system) = ([timer_later], ?res)"
    by (simp add: sample_defs scan_def to_remove_pred_def set_poll_error_def
        POLLIN_def POLLERR_def POLLHUP_def POLLNVAL_def)
  have a: "pull no_reentry (answering [POLLIN, 0, 0]) 100 sample_system =
      Some (resume_all no_reentry ?res (sample_system\<lparr>operations := [timer_later]\<rparr>))"
    using nonblocking_pass [where k = no_reentry, OF a1 a2 a3] by blast
  have b: "pull no_reentry (interrupted_then [0, 0]) 100 quiet_system =
      Some (quiet_system\<lparr>operations := [reader, timer_later]\<rparr>)"
    using nonblocking_pass [where k = no_reentry, OF b1 b2 b3] b4 by blast
  have c: "pull recording (answering [POLLIN, 0, 0]) 100 recording_system =
      Some (foldl (\<lambda>st x. case recording x (operations st, world st) of
                     (ops', w') \<Rightarrow>
                       \<lparr>operations = ops', trace = trace st @ [(x, operations st)], world = w'\<rparr>)
              (recording_system\<lparr>operations := [timer_later]\<rparr>) ?res)"
    using nonblocking_pass [where k = recording, OF c1 c2 c3] by blast
  show ?thesis
    using a b c
    by (simp add: sample_defs resume_def poll_until_await_resume_def)
qed




text \<open>
  C5, as stated, fails: when a coroutine that the destructor resumes registers a new
  operation each time (it catches the failure and waits again), the loop of the
  destructor pops that new operation next, and so on for ever. The destructor never
  returns, the registry never becomes empty, and the two descriptor waits registered
  before the timer are never resumed.
\<close>

theorem teardown_counterexample:
  "destroy awaits_again teardown_system = None"
  by (rule destroy_awaits_again) (simp add: teardown_system_def)

text \<open>
  C5, amended: destroying an \<open>io_engine\<close> with any number of operations registered,
  when the coroutines it resumes do not re-enter the reactor, returns with the registry
  empty after resuming every registered operation exactly once (last registered first),
  each coroutine being run on its operation with the failure \<open>destroyed\<close> stored; the
  awaiters raise it, and it differs from the system error and from the three descriptor
  conditions. When the resumed coroutines register new operations, the destructor need
  not return; whenever it returns, the registry is empty, every operation it has resumed
  carried \<open>destroyed\<close>, and the operations registered at the start are among them, in
  reverse registration order. The last part, without the operations registered at the
  start, holds for arbitrary continuations.
\<close>

theorem teardown_resumes_all:
  "(\<exists>s'. destroy (detached g) s = Some s' \<and> operations s' = [] \<and>
       map fst (trace s') =
         map fst (trace s) @ map (\<lambda>op. op\<lparr>exception := Some destroyed\<rparr>) (rev (operations s)) \<and>
       world s' =
         foldl (\<lambda>w x. g x w) (world s)
           (map (\<lambda>op. op\<lparr>exception := Some destroyed\<rparr>) (rev (operations s))))
   \<and> wait_until_await_resume (op\<lparr>exception := Some destroyed\<rparr>) = Inl destroyed
   \<and> poll_until_await_resume (op\<lparr>exception := Some destroyed\<rparr>) = Inl destroyed
   \<and> destroyed \<noteq> System_error n m \<and> destroyed \<noteq> Pollerr_error n
   \<and> destroyed \<noteq> Pollhup_error n \<and> destroyed \<noteq> Pollnval_error n
   \<and> (only_registers k \<and> destroy k s = Some s' \<longrightarrow>
        operations s' = [] \<and>
        (\<exists>ext. trace s' = trace s @ ext \<and>
           (\<forall>x\<in>set ext. exception (fst x) = Some destroyed) \<and>
           subseq (map (\<lambda>op. op\<lparr>exception := Some destroyed\<rparr>) (rev (operations s)))
             (map fst ext)))
   \<and> (destroy k s = Some s' \<longrightarrow>
        operations s' = [] \<and>
        (\<exists>ext. trace s' = trace s @ ext \<and> (\<forall>x\<in>set ext. exception (fst x) = Some destroyed)))"
proof -
  have a: "\<exists>s'. destroy (detached g) s = Some s' \<and> operations s' = [] \<and>
       map fst (trace s') =
         map fst (trace s) @ map (\<lambda>op. op\<lparr>exception := Some destroyed\<rparr>) (rev (operations s)) \<and>
       world s' =
         foldl (\<lambda>w x. g x w) (world s)
           (map (\<lambda>op. op\<lparr>exception := Some destroyed\<rparr>) (rev (operations s)))"
    by (rule destroy_detached_full)
  have b: "wait_until_await_resume (op\<lparr>exception := Some destroyed\<rparr>) = Inl destroyed"
    "poll_until_await_resume (op\<lparr>exception := Some destroyed\<rparr>) = Inl destroyed"
    "destroyed \<noteq> System_error n m" "destroyed \<noteq> Pollerr_error n"
    "destroyed \<noteq> Pollhup_error n" "destroyed \<noteq> Pollnval_error n"
    by (simp_all add: wait_until_await_resume_def poll_until_await_resume_def destroyed_def)
  have c: "only_registers k \<and> destroy k s = Some s' \<longrightarrow>
        operations s' = [] \<and>
        (\<exists>ext. trace s' = trace s @ ext \<and>
           (\<forall>x\<in>set ext. exception (fst x) = Some destroyed) \<and>
           subseq (map (\<lambda>op. op\<lparr>exception := Some destroyed\<rparr>) (rev (operations s)))
             (map fst ext))"
    using destroy_registering [of k s s'] by blast
  have d: "destroy k s = Some s' \<longrightarrow>
        operations s' = [] \<and>
        (\<exists>ext. trace s' = trace s @ ext \<and> (\<forall>x\<in>set ext. exception (fst x) = Some destroyed))"
    using destroy_returns [of k s s'] by blast
  show ?thesis using a b c d by blast
qed

text \<open>
  The teardown of a reactor holding two descriptor waits and a timer, whose coroutines
  write down what they are resumed with; and one during which a resumed coroutine
  registers a further timer, once.
\<close>

theorem teardown_resumes_all_witness:
  "destroy recording recording_teardown =
     Some \<lparr>operations = [],
           trace = [(timer_later\<lparr>exception := Some destroyed\<rparr>, [reader, writer]),
                    (writer\<lparr>exception := Some destroyed\<rparr>, [reader]),
                    (reader\<lparr>exception := Some destroyed\<rparr>, [])],
           world = [(Some 3, Inl destroyed), (Some 5, Inl destroyed), (Some 1, Inl destroyed)]\<rparr>
   \<and> destroy registers_once \<lparr>operations = [reader], trace = [], world = False\<rparr> =
     Some \<lparr>operations = [],
           trace = [(reader\<lparr>exception := Some destroyed\<rparr>, []),
                    (timer_later\<lparr>exception := Some destroyed\<rparr>, [])],
           world = True\<rparr>
   \<and> subseq [reader\<lparr>exception := Some destroyed\<rparr>]
        [reader\<lparr>exception := Some destroyed\<rparr>, timer_later\<lparr>exception := Some destroyed\<rparr>]"
proof -
  let ?g = "\<lambda>op w. w @ [(handle op, poll_until_await_resume op)]"
  let ?a = "\<lparr>operations = [],
           trace = [(timer_later\<lparr>exception := Some destroyed\<rparr>, [reader, writer]),
                    (writer\<lparr>exception := Some destroyed\<rparr>, [reader]),
                    (reader\<lparr>exception := Some destroyed\<rparr>, [])],
           world = [(Some 3, Inl destroyed), (Some 5, Inl destroyed), (Some 1, Inl destroyed)]\<rparr>"
  let ?s = "\<lparr>operations = [reader], trace = [], world = False\<rparr>"
  let ?b = "\<lparr>operations = [],
           trace = [(reader\<lparr>exception := Some destroyed\<rparr>, []),
                    (timer_later\<lparr>exception := Some destroyed\<rparr>, [])],
           world = True\<rparr>"
  have a: "destroy recording recording_teardown = Some ?a"
    apply (subst destroy.simps, simp add: sample_defs resume_def poll_until_await_resume_def Let_def)
    apply (subst destroy.simps, simp add: sample_defs resume_def poll_until_await_resume_def Let_def)
    apply (subst destroy.simps, simp add: sample_defs resume_def poll_until_await_resume_def Let_def)
    apply (subst destroy.simps, simp add: sample_defs resume_def poll_until_await_resume_def Let_def)
    done
  have b: "destroy registers_once ?s = Some ?b"
    apply (subst destroy.simps, simp add: registers_once_def resume_def)
    apply (subst destroy.simps, simp add: registers_once_def resume_def)
    apply (subst destroy.simps, simp add: registers_once_def resume_def)
    done
  have r: "only_registers registers_once"
    by (auto simp: only_registers_def registers_once_def)
  have "\<exists>s'. destroy (detached ?g) recording_teardown = Some s' \<and> operations s' = [] \<and>
      world s' = foldl (\<lambda>w x. ?g x w) (world recording_teardown)
        (map (\<lambda>op. op\<lparr>exception := Some destroyed\<rparr>) (rev (operations recording_teardown)))"
    using teardown_resumes_all [where g = ?g and s = recording_teardown] by blast
  then have "world ?a = [(Some 3, Inl destroyed), (Some 5, Inl destroyed), (Some 1, Inl destroyed)]"
    using a by (simp add: recording_def)
  moreover have "operations ?b = [] \<and>
      (\<exists>ext. trace ?b = trace ?s @ ext \<and>
         (\<forall>x\<in>set ext. exception (fst x) = Some destroyed) \<and>
         subseq (map (\<lambda>op. op\<lparr>exception := Some destroyed\<rparr>) (rev (operations ?s)))
           (map fst ext))"
    using teardown_resumes_all [where k = registers_once and s = ?s and s' = ?b] b r
    by blast
  then have "subseq [reader\<lparr>exception := Some destroyed\<rparr>]
        [reader\<lparr>exception := Some destroyed\<rparr>, timer_later\<lparr>exception := Some destroyed\<rparr>]"
    by simp
  ultimately show ?thesis using a b by simp
qed

text \<open>
  C9. Awaiting \<open>wait_until\<close> or \<open>poll_until\<close> (directly, or through \<open>wait_for\<close>
  and \<open>poll_for\<close>) with a deadline that is not after the clock read by
  \<open>await_ready\<close>: the awaiter is ready, the coroutine goes on at once with a normal
  result, and the reactor is unchanged, so nothing was registered and no pass is needed.
\<close>

theorem past_deadline_is_ready:
  assumes "t \<le> now"
  shows "co_await_wait_until h now (wait_until t) s = Inr (s, Resumed (Inr ()))
    \<and> co_await_poll_until h now (poll_until raw ev t) s = Inr (s, Resumed (Inr 0))
    \<and> (start + d = t \<and> wait_for start d = Inr opw \<longrightarrow>
          co_await_wait_until h now opw s = Inr (s, Resumed (Inr ())))
    \<and> (start + d = t \<and> poll_for start raw ev d = Inr opp \<longrightarrow>
          co_await_poll_until h now opp s = Inr (s, Resumed (Inr 0)))"
  using assms
  by (auto simp: co_await_wait_until_def co_await_poll_until_def co_await_def await_ready_def
      wait_until_def poll_until_def wait_until_await_resume_def poll_until_await_resume_def
      wait_for_def poll_for_def time_plus_def split: if_splits)

text \<open>
  At time 100, waits whose deadline is 50, given directly and as the duration \<open>-10\<close>
  added to the clock value 60.
\<close>

theorem past_deadline_is_ready_witness:
  "co_await_wait_until 2 100 (wait_until 50) sample_system = Inr (sample_system, Resumed (Inr ()))
   \<and> co_await_poll_until 2 100 (poll_until 3 POLLIN 50) sample_system
       = Inr (sample_system, Resumed (Inr 0))
   \<and> wait_for 60 (- 10) = Inr (wait_until 50)
   \<and> poll_for 60 3 POLLIN (- 10) = Inr (poll_until 3 POLLIN 50)"
proof -
  have h: "(50::int) \<le> 100" by simp
  have w: "wait_for 60 (- 10) = Inr (wait_until 50)"
    and p: "poll_for 60 3 POLLIN (- 10) = Inr (poll_until 3 POLLIN 50)"
    by (simp_all add: wait_for_def poll_for_def time_plus_def)
  show ?thesis
    using past_deadline_is_ready [OF h, where h = 2 and s = sample_system and raw = 3
        and ev = POLLIN and start = 60 and d = "- 10" and opw = "wait_until 50"
        and opp = "poll_until 3 POLLIN 50"] w p
    by simp
qed





text \<open>
  C1. The claim: when the body of a \<open>generator<T>\<close> throws during an advance
  (\<open>begin()\<close> or \<open>operator++\<close>), that advance re-raises the exception to the
  traversal. The code: the exception is stored in the promise, the advance returns
  normally with the iterator at the end, and the range-based \<open>for\<close> ends as if the
  sequence were exhausted; no advance ever raises, and the traversal of any body ends
  normally with the values yielded. The same stored exception is re-raised by
  \<open>await_resume\<close> in \<open>async_generator<T>\<close>.
\<close>

theorem generator_failure_is_swallowed:
  "gen_begin (generator (Gen_yield v (Gen_throw e))) =
     Inr (Some \<lparr>g_promise = \<lparr>g_value = Some v, g_exception = None\<rparr>,
                g_body = Gen_throw e, g_done = False\<rparr>)
   \<and> iterator_incr (Some \<lparr>g_promise = \<lparr>g_value = Some v, g_exception = None\<rparr>,
                g_body = Gen_throw e, g_done = False\<rparr>) =
     Inr (Some \<lparr>g_promise = \<lparr>g_value = Some v, g_exception = Some e\<rparr>,
                g_body = Gen_throw e, g_done = True\<rparr>)
   \<and> range_for (generator (Gen_yield v (Gen_throw e))) = Inr [Some v]
   \<and> gen_begin (generator (Gen_throw e :: 'a gen_body)) =
     Inr (Some \<lparr>g_promise = \<lparr>g_value = None, g_exception = Some e\<rparr>,
                g_body = Gen_throw e, g_done = True\<rparr>)
   \<and> range_for (generator (Gen_throw e :: 'a gen_body)) = Inr []
   \<and> iterator_incr it \<noteq> Inl (Raised e') \<and> gen_begin g \<noteq> Inl (Raised e')
   \<and> range_for (generator b) = Inr (map Some (yields b))
   \<and> async_await_resume (Some e) = Inl e"
  using range_for_yields [of b]
  by (simp add: range_for_def generator_def gen_begin_def gen_resume_def gen_run_def
      for_loop.simps iterator_at_end_def iterator_deref_def iterator_incr_def
      async_await_resume_def split: option.splits)


text \<open>
  C7. A lazy task whose body ends with an exception \<open>e\<close>, after any number of
  suspensions. Creating the task runs nothing: the whole body is still ahead and no
  failure is stored, and destroying the handle leaves it so. When a coroutine \<open>c\<close>
  awaits the task, \<open>c\<close> stays suspended while the body suspends and is resumed exactly
  once, when the body ends, with \<open>e\<close> raised by \<open>await_resume\<close>; the failure stays
  stored, so that a later await of the finished task raises it again at once.
\<close>

theorem lazy_task_failure:
  assumes "body_result b = Inl e"
  shows "lazy_task b =
       \<lparr>promise = \<lparr>continuation = None, p_value = None, p_exception = None\<rparr>,
        body = b, h_done = False\<rparr>
    \<and> unique_handle_destroy (Some (lazy_task b)) = None
    \<and> (\<exists>f1 r f2 rs.
          lazy_co_await mv c (lazy_task b) = (f1, r) \<and>
          resume_n mv c (suspensions b) f1 = Inr (f2, rs) \<and>
          r # rs = replicate (suspensions b) Suspended @ [Resumed (Inl e)] \<and>
          h_done f2 \<and> p_exception (promise f2) = Some e \<and>
          lazy_co_await mv c' f2 = (f2, Resumed (Inl e)))"
proof -
  let ?f = "(new_frame b)\<lparr>promise := (promise (new_frame b))\<lparr>continuation := Some c\<rparr>\<rparr>"
  have "\<not> h_done ?f" "continuation (promise ?f) = Some c" "p_exception (promise ?f) = None"
    "body ?f = b"
    by (simp_all add: new_frame_def)
  from run_delivers [OF this] obtain f2 rs where d:
    "resume_n mv c (suspensions b) (fst (transfer_to mv c (run ?f))) = Inr (f2, rs)"
    "snd (transfer_to mv c (run ?f)) # rs =
       replicate (suspensions b) Suspended @ [Resumed (outcome_of b)]"
    "h_done f2"
    "p_exception (promise f2) = (case body_result b of Inl e \<Rightarrow> Some e | Inr v \<Rightarrow> None)"
    by blast
  have o: "outcome_of b = Inl e" using assms by (simp add: outcome_of_def)
  have aw: "lazy_co_await mv c (lazy_task b) = transfer_to mv c (run ?f)"
    by (simp add: lazy_co_await_def lazy_await_ready_def lazy_task_def lazy_await_suspend_def
        new_frame_def)
  have ex: "p_exception (promise f2) = Some e"
    using d(4) assms by simp
  have again: "lazy_co_await mv c' f2 = (f2, Resumed (Inl e))"
    using d(3) ex
    by (simp add: lazy_co_await_def lazy_await_ready_def goes_on_def task_await_resume_def)
  obtain f1 r where t: "transfer_to mv c (run ?f) = (f1, r)"
    by (cases "transfer_to mv c (run ?f)")
  have "lazy_co_await mv c (lazy_task b) = (f1, r)"
    using aw t by simp
  moreover have "resume_n mv c (suspensions b) f1 = Inr (f2, rs)"
    using d(1) t by simp
  moreover have "r # rs = replicate (suspensions b) Suspended @ [Resumed (Inl e)]"
    using d(2) t o by simp
  ultimately have "\<exists>f1 r f2 rs.
          lazy_co_await mv c (lazy_task b) = (f1, r) \<and>
          resume_n mv c (suspensions b) f1 = Inr (f2, rs) \<and>
          r # rs = replicate (suspensions b) Suspended @ [Resumed (Inl e)] \<and>
          h_done f2 \<and> p_exception (promise f2) = Some e \<and>
          lazy_co_await mv c' f2 = (f2, Resumed (Inl e))"
    using d(3) ex again by blast
  moreover have "lazy_task b =
       \<lparr>promise = \<lparr>continuation = None, p_value = None, p_exception = None\<rparr>,
        body = b, h_done = False\<rparr>"
    by (simp add: lazy_task_def new_frame_def)
  moreover have "unique_handle_destroy (Some (lazy_task b)) = None"
    by (simp add: unique_handle_destroy_def)
  ultimately show ?thesis by blast
qed

text \<open>
  A body that suspends once and then throws, awaited by coroutine 7.
\<close>

theorem lazy_task_failure_witness:
  "lazy_co_await (\<lambda>x. x) 7
       (lazy_task (Co_suspend (Co_throw (Runtime_error ''boom'')) :: nat co_body)) =
     (\<lparr>promise = \<lparr>continuation = Some 7, p_value = None, p_exception = None\<rparr>,
       body = Co_throw (Runtime_error ''boom''), h_done = False\<rparr>, Suspended)
   \<and> resume_n (\<lambda>x. x) 7 1
       \<lparr>promise = \<lparr>continuation = Some 7, p_value = None, p_exception = None\<rparr>,
        body = Co_throw (Runtime_error ''boom'') :: nat co_body, h_done = False\<rparr> =
     Inr (\<lparr>promise = \<lparr>continuation = Some 7, p_value = None,
                      p_exception = Some (Runtime_error ''boom'')\<rparr>,
           body = Co_throw (Runtime_error ''boom''), h_done = True\<rparr>,
          [Resumed (Inl (Runtime_error ''boom''))])"
proof -
  have h: "body_result (Co_suspend (Co_throw (Runtime_error ''boom'')) :: nat co_body) =
      Inl (Runtime_error ''boom'')"
    by simp
  show ?thesis
    using lazy_task_failure [OF h, of "\<lambda>x. x" 7 7]
    by (simp add: lazy_co_await_def lazy_await_ready_def lazy_task_def lazy_await_suspend_def
        new_frame_def run_def transfer_to_def goes_on_def handle_resume_def final_suspend_def
        unhandled_exception_def task_await_resume_def)
qed

text \<open>
  C8. Creating an eager task runs its body up to the first suspension or to the end, and
  control then returns to the creator (the continuation is still the no-op one).
  Awaiting it never runs the body: if the task has finished, the awaiter is ready and
  \<open>await_resume\<close> gives the stored result at once (the value of a task that returned
  one, which is moved out of the promise); otherwise the continuation is recorded and
  the awaiting coroutine is suspended. In both cases the body, the completion flag and
  the stored failure are as before. A
  task that suspended at creation and is then awaited still needs every one of its
  remaining steps to be resumed from outside before the awaiter gets the result.
\<close>

theorem eager_task_runs_at_creation:
  "eager_task b =
     (case b of
        Co_suspend b' \<Rightarrow> new_frame b'
      | Co_return v \<Rightarrow>
          \<lparr>promise = \<lparr>continuation = None, p_value = Some v, p_exception = None\<rparr>,
           body = b, h_done = True\<rparr>
      | Co_throw e \<Rightarrow>
          \<lparr>promise = \<lparr>continuation = None, p_value = None, p_exception = Some e\<rparr>,
           body = b, h_done = True\<rparr>)
   \<and> snd (run (new_frame b)) = None
   \<and> eager_co_await mv c f =
       (if h_done f then
          (case p_exception (promise f) of
             Some e \<Rightarrow> (f, Resumed (Inl e))
           | None \<Rightarrow>
               (f\<lparr>promise := (promise f)\<lparr>p_value := mv (p_value (promise f))\<rparr>\<rparr>,
                Resumed (Inr (p_value (promise f)))))
        else (f\<lparr>promise := (promise f)\<lparr>continuation := Some c\<rparr>\<rparr>, Suspended))
   \<and> body (fst (eager_co_await mv c f)) = body f
   \<and> h_done (fst (eager_co_await mv c f)) = h_done f
   \<and> p_exception (promise (fst (eager_co_await mv c f))) = p_exception (promise f)
   \<and> eager_co_await mv c (eager_task (Co_return v)) =
       (\<lparr>promise = \<lparr>continuation = None, p_value = mv (Some v), p_exception = None\<rparr>,
         body = Co_return v, h_done = True\<rparr>,
        Resumed (Inr (Some v)))
   \<and> (\<exists>f2. resume_n mv c (Suc (suspensions b'))
              (fst (eager_co_await mv c (eager_task (Co_suspend b')))) =
            Inr (f2, replicate (suspensions b') Suspended @ [Resumed (outcome_of b')]))"
  using eager_then_await [of mv c b']
  by (simp add: eager_task_def run_def new_frame_def final_suspend_def return_value_def
      unhandled_exception_def eager_co_await_def eager_await_ready_def eager_await_suspend_def
      goes_on_def task_await_resume_def split: co_body.splits option.splits)

text \<open>
  A task of strings that returns \<open>abc\<close> at creation, with the empty string left behind by
  a move: the first await gets \<open>abc\<close> at once and empties the stored value, a second one
  gets the empty string; the body and the completion flag never change.
\<close>

theorem eager_task_runs_at_creation_witness:
  "eager_co_await (\<lambda>x. Some []) 7 (eager_task (Co_return ''abc'')) =
     (\<lparr>promise = \<lparr>continuation = None, p_value = Some [], p_exception = None\<rparr>,
       body = Co_return ''abc'', h_done = True\<rparr>,
      Resumed (Inr (Some ''abc'')))
   \<and> eager_co_await (\<lambda>x. Some []) 8
       \<lparr>promise = \<lparr>continuation = None, p_value = Some [], p_exception = None\<rparr>,
        body = Co_return ''abc'', h_done = True\<rparr> =
     (\<lparr>promise = \<lparr>continuation = None, p_value = Some [], p_exception = None\<rparr>,
       body = Co_return ''abc'', h_done = True\<rparr>,
      Resumed (Inr (Some [])))"
proof -
  let ?F = "\<lparr>promise = \<lparr>continuation = None, p_value = Some [], p_exception = None\<rparr>,
        body = Co_return ''abc'', h_done = True\<rparr>"
  note A = eager_task_runs_at_creation [where mv = "\<lambda>x. Some []" and c = 7 and v = "''abc''"]
  note B = eager_task_runs_at_creation [where mv = "\<lambda>x. Some []" and c = 8 and f = ?F]
  have a: "eager_co_await (\<lambda>x. Some []) 7 (eager_task (Co_return ''abc'')) =
      (?F, Resumed (Inr (Some ''abc'')))"
    using A by blast
  have "eager_co_await (\<lambda>x. Some []) 8 ?F =
       (if h_done ?F then
          (case p_exception (promise ?F) of
             Some e \<Rightarrow> (?F, Resumed (Inl e))
           | None \<Rightarrow>
               (?F\<lparr>promise := (promise ?F)\<lparr>p_value := Some []\<rparr>\<rparr>,
                Resumed (Inr (p_value (promise ?F)))))
        else (?F\<lparr>promise := (promise ?F)\<lparr>continuation := Some 8\<rparr>\<rparr>, Suspended))"
    using B by blast
  then have b: "eager_co_await (\<lambda>x. Some []) 8 ?F = (?F, Resumed (Inr (Some [])))"
    by simp
  show ?thesis using a b by simp
qed

end
